theory Spec2Isabelle
  imports Main
begin

section \<open>JavaScript strings\<close>

text \<open>
  Texts are modelled as \<^typ>\<open>string\<close>, read as ASCII: one \<^typ>\<open>char\<close> is one character of
  the JavaScript string. The character classes below are those of the JavaScript engine
  restricted to ASCII: \<open>\s\<close> and \<open>trim\<close> know the six ASCII white-space characters,
  \<open>\d\<close> is \<open>0-9\<close>, \<open>toLowerCase\<close> maps \<open>A-Z\<close> to \<open>a-z\<close> and keeps every other
  character. Texts with characters beyond ASCII are outside this model.
\<close>

definition NL :: char where
  "NL = CHR 0x0A"

definition isSpace :: "char \<Rightarrow> bool" where
  "isSpace c = (c \<in> set [CHR 0x09, CHR 0x0A, CHR 0x0B, CHR 0x0C, CHR 0x0D, CHR 0x20])"

definition isDigit :: "char \<Rightarrow> bool" where
  "isDigit c = (c \<in> set ''0123456789'')"

definition isUpper :: "char \<Rightarrow> bool" where
  "isUpper c = (c \<in> set ''ABCDEFGHIJKLMNOPQRSTUVWXYZ'')"

definition lowerChar :: "char \<Rightarrow> char" where
  "lowerChar c = (if isUpper c then char_of (of_char c + (32::nat)) else c)"

definition toLowerCase :: "string \<Rightarrow> string" where
  "toLowerCase s = map lowerChar s"

definition trim :: "string \<Rightarrow> string" where
  "trim s = rev (dropWhile isSpace (rev (dropWhile isSpace s)))"

fun startsWith :: "string \<Rightarrow> string \<Rightarrow> bool" where
  "startsWith s [] = True"
| "startsWith [] (p # ps) = False"
| "startsWith (c # cs) (p # ps) = (c = p \<and> startsWith cs ps)"

text \<open>\<open>hay.includes(needle)\<close>: the needle occurs somewhere in the text.\<close>

fun includesStr :: "string \<Rightarrow> string \<Rightarrow> bool" where
  "includesStr [] needle = (needle = [])"
| "includesStr (c # cs) needle = (startsWith (c # cs) needle \<or> includesStr cs needle)"

text \<open>\<open>content.split('\n')\<close>: never empty, the empty text has the one line \<open>''\<close>.\<close>

fun split_lines :: "string \<Rightarrow> string list" where
  "split_lines [] = [[]]"
| "split_lines (c # cs) =
     (if c = NL then [] # split_lines cs
      else (case split_lines cs of
              l # ls \<Rightarrow> (c # l) # ls
            | [] \<Rightarrow> [[c]]))"

text \<open>\<open>result.join('\n')\<close>.\<close>

fun join_lines :: "string list \<Rightarrow> string" where
  "join_lines [] = []"
| "join_lines [l] = l"
| "join_lines (l # m # ls) = l @ NL # join_lines (m # ls)"

text \<open>\<open>content.substring(0, n)\<close>.\<close>

definition substring0 :: "nat \<Rightarrow> string \<Rightarrow> string" where
  "substring0 n s = take n s"

section \<open>Section extraction\<close>

text \<open>
  The header test of \<open>extractSection\<close>: some keyword occurs in the lower-cased line,
  and the lower-cased line has a colon or a double asterisk.
\<close>

definition isKeywordLine :: "string list \<Rightarrow> string \<Rightarrow> bool" where
  "isKeywordLine keywords line =
     (let lowerLine = toLowerCase line
      in list_ex (\<lambda>kw. includesStr lowerLine kw \<and>
            (includesStr lowerLine '':'' \<or> includesStr lowerLine ''**'')) keywords)"

text \<open>
  The bullet alternative of the first pattern, with the bytes the source file holds
  between \<open>^\<close> and \<open>|\<close>. No ASCII line starts with it.
\<close>

definition bullet :: string where
  "bullet = [CHR 0xC3, CHR 0xA2, CHR 0xE2, CHR 0x82, CHR 0xAC, CHR 0xC2, CHR 0xA2]"

text \<open>\<open>/^\d+\./\<close>: a non-empty run of digits, then a dot.\<close>

definition matchNumberDot :: "string \<Rightarrow> bool" where
  "matchNumberDot line =
     (takeWhile isDigit line \<noteq> [] \<and> startsWith (dropWhile isDigit line) ''.'')"

text \<open>
  \<open>/^[A-Z][^:]{3,}:/\<close>: a capital letter, at least three characters other than a colon,
  then a colon; so the first colon after the capital is at least three characters away.
\<close>

definition matchCapitalColon :: "string \<Rightarrow> bool" where
  "matchCapitalColon line =
     (case line of
        [] \<Rightarrow> False
      | c # cs \<Rightarrow> isUpper c \<and> 3 \<le> length (takeWhile (\<lambda>x. x \<noteq> CHR '':'') cs)
                 \<and> dropWhile (\<lambda>x. x \<noteq> CHR '':'') cs \<noteq> [])"

text \<open>The first pattern: \<open>/^\d+\.|^-|^<bullet>|^[A-Z][^:]{3,}:/\<close>.\<close>

definition matchSectionHeader :: "string \<Rightarrow> bool" where
  "matchSectionHeader line =
     (matchNumberDot line \<or> startsWith line ''-'' \<or> startsWith line bullet
      \<or> matchCapitalColon line)"

text \<open>The second pattern, \<open>/^\d+\.\s+[A-Z]/\<close>: digits, a dot, white space, a capital.\<close>

definition matchNumberedSection :: "string \<Rightarrow> bool" where
  "matchNumberedSection line =
     (takeWhile isDigit line \<noteq> [] \<and>
      (case dropWhile isDigit line of
         [] \<Rightarrow> False
       | d # rest \<Rightarrow> d = CHR ''.'' \<and> takeWhile isSpace rest \<noteq> [] \<and>
           (case dropWhile isSpace rest of [] \<Rightarrow> False | u # _ \<Rightarrow> isUpper u)))"

definition mentionsReferences :: "string \<Rightarrow> bool" where
  "mentionsReferences line =
     (includesStr (toLowerCase line) ''documentation'' \<or>
      includesStr (toLowerCase line) ''reference'' \<or>
      includesStr (toLowerCase line) ''link'')"

definition nextKeywordMatch :: "string list \<Rightarrow> string \<Rightarrow> bool" where
  "nextKeywordMatch keywords line =
     list_ex (\<lambda>kw. includesStr (toLowerCase line) kw) keywords"

text \<open>
  The look-ahead after a captured line at index \<open>i\<close>: the lines \<open>i + 1\<close> and \<open>i + 2\<close>
  both exist and are blank. The argument is the list of lines after index \<open>i\<close>.
\<close>

fun lookAheadBlank :: "string list \<Rightarrow> bool" where
  "lookAheadBlank (l1 # l2 # _) = (trim l1 = [] \<and> trim l2 = [])"
| "lookAheadBlank _ = False"

text \<open>
  The \<open>for\<close> loop of \<open>extractSection\<close>. Its state is the flag \<open>capturing\<close> and the
  array \<open>result\<close>; the index \<open>i\<close> is the position of the first remaining line.
  \<open>continue\<close> is the recursive call, \<open>break\<close> returns \<open>result\<close>.
\<close>

fun scanLines :: "string list \<Rightarrow> bool \<Rightarrow> string list \<Rightarrow> string list \<Rightarrow> string list" where
  "scanLines keywords capturing result [] = result"
| "scanLines keywords capturing result (line # rest) =
     (if isKeywordLine keywords line then scanLines keywords True result rest
      else if capturing \<and> matchSectionHeader line \<and> mentionsReferences line then result
      else if capturing \<and> matchNumberedSection line \<and> \<not> nextKeywordMatch keywords line
        then result
      else if capturing \<and> trim line \<noteq> [] then
        (if lookAheadBlank rest then result @ [trim line]
         else scanLines keywords capturing (result @ [trim line]) rest)
      else scanLines keywords capturing result rest)"

text \<open>\<open>result.join('\n') || content.substring(0, 200) + '...'\<close>: the empty text is falsy.\<close>

definition extractSection :: "string \<Rightarrow> string list \<Rightarrow> string" where
  "extractSection content keywords =
     (let result = scanLines keywords False [] (split_lines content)
      in if join_lines result \<noteq> [] then join_lines result
         else substring0 200 content @ ''...'')"

text \<open>
  The two \<open>break\<close> tests of the loop for a line that is not a header line, while
  capturing: a section header pattern on a line that mentions references, or a numbered
  header that holds none of the keywords.
\<close>

definition stopsCapture :: "string list \<Rightarrow> string \<Rightarrow> bool" where
  "stopsCapture keywords line =
     ((matchSectionHeader line \<and> mentionsReferences line)
      \<or> (matchNumberedSection line \<and> \<not> nextKeywordMatch keywords line))"

text \<open>
  No stop condition is met in the lines \<open>body\<close>, which are followed by the lines \<open>tail\<close>:
  no line of \<open>body\<close> breaks the loop, and none is captured with two blank lines after it.
\<close>

fun noStopIn :: "string list \<Rightarrow> string list \<Rightarrow> string list \<Rightarrow> bool" where
  "noStopIn keywords [] tail = True"
| "noStopIn keywords (line # rest) tail =
     ((isKeywordLine keywords line
       \<or> (\<not> stopsCapture keywords line
          \<and> \<not> (trim line \<noteq> [] \<and> lookAheadBlank (rest @ tail))))
      \<and> noStopIn keywords rest tail)"

text \<open>
  How capture ends at the lines \<open>tail\<close>, and what it still emits there: at the end of the
  text, nothing; at a line that breaks the loop, nothing; at a captured line with two blank
  lines after it, that line, trimmed. \<open>None\<close> when capture does not end at the first line
  of \<open>tail\<close>.
\<close>

definition stopOutput :: "string list \<Rightarrow> string list \<Rightarrow> string list option" where
  "stopOutput keywords tail =
     (case tail of
        [] \<Rightarrow> Some []
      | line # rest \<Rightarrow>
          if isKeywordLine keywords line then None
          else if stopsCapture keywords line then Some []
          else if trim line \<noteq> [] \<and> lookAheadBlank rest then Some [trim line]
          else None)"

text \<open>The non-blank lines that are not header lines, trimmed.\<close>

definition emitted :: "string list \<Rightarrow> string list \<Rightarrow> string list" where
  "emitted keywords body =
     map trim (filter (\<lambda>line. \<not> isKeywordLine keywords line \<and> trim line \<noteq> []) body)"

section \<open>Reference extraction\<close>

text \<open>
  One attempt of \<open>/(https?:\/\/[^\s]+)/\<close> at the start of the input: the match and the
  input after it. After the scheme at least one character other than white space must follow.
\<close>

definition schemeAt :: "string \<Rightarrow> string option" where
  "schemeAt s = (if startsWith s ''https://'' then Some ''https://''
                 else if startsWith s ''http://'' then Some ''http://'' else None)"

definition urlAt :: "string \<Rightarrow> (string \<times> string) option" where
  "urlAt s =
     (case schemeAt s of
        None \<Rightarrow> None
      | Some sch \<Rightarrow>
          (let after = drop (length sch) s; body = takeWhile (\<lambda>c. \<not> isSpace c) after
           in if body = [] then None
              else Some (sch @ body, dropWhile (\<lambda>c. \<not> isSpace c) after)))"

lemma schemeAt_nonempty: "schemeAt s = Some sch \<Longrightarrow> sch \<noteq> []"
  by (auto simp: schemeAt_def split: if_splits)

lemma urlAt_shorter:
  assumes "urlAt s = Some (m, rest)"
  shows "length rest < length s"
proof -
  from assms obtain sch where sch: "schemeAt s = Some sch"
    and body: "takeWhile (\<lambda>c. \<not> isSpace c) (drop (length sch) s) \<noteq> []"
    and rest: "rest = dropWhile (\<lambda>c. \<not> isSpace c) (drop (length sch) s)"
    by (auto simp: urlAt_def Let_def split: option.splits if_splits)
  from body have "drop (length sch) s \<noteq> []" by auto
  then have "length sch < length s" by simp
  moreover have "0 < length sch" using schemeAt_nonempty [OF sch] by simp
  moreover have "length rest \<le> length s - length sch"
    unfolding rest using length_dropWhile_le [of _ "drop (length sch) s"] by simp
  ultimately show ?thesis by arith
qed

text \<open>\<open>content.match(urlRegex) || []\<close>: all matches, leftmost first, not overlapping.\<close>

function matchUrls :: "string \<Rightarrow> string list" where
  "matchUrls [] = []"
| "matchUrls (c # cs) =
     (case urlAt (c # cs) of
        Some (m, rest) \<Rightarrow> m # matchUrls rest
      | None \<Rightarrow> matchUrls cs)"
  by pat_completeness auto
termination
proof (relation "measure length")
  fix c cs x m rest
  assume "urlAt (c # cs) = Some x" and "(m, rest) = x"
  then have "urlAt (c # cs) = Some (m, rest)" by simp
  then show "(rest, c # cs) \<in> measure length"
    using urlAt_shorter [of "c # cs" m rest] by simp
qed simp_all

text \<open>\<open>url.replace(/[),.\]>]+$/, '')\<close>: the trailing run of these five characters goes.\<close>

definition isTrailing :: "char \<Rightarrow> bool" where
  "isTrailing c = (c \<in> set '')],.>'')"

definition cleanUrl :: "string \<Rightarrow> string" where
  "cleanUrl url = rev (dropWhile isTrailing (rev url))"

definition extractReferences :: "string \<Rightarrow> string list" where
  "extractReferences content = map cleanUrl (matchUrls content)"

section \<open>Response parsing\<close>

record analysis =
  explanation :: string
  causes :: string
  "fixes" :: string
  references :: "string list"
  raw :: string

definition explanationKeywords :: "string list" where
  "explanationKeywords = [''explanation'', ''plain-english'', ''what happened'']"

definition causesKeywords :: "string list" where
  "causesKeywords = [''causes'', ''likely causes'', ''reasons'']"

definition fixesKeywords :: "string list" where
  "fixesKeywords = [''fixes'', ''suggested fixes'', ''solutions'', ''fix'']"

definition parseAIResponse :: "string \<Rightarrow> analysis" where
  "parseAIResponse content =
     \<lparr> explanation = extractSection content explanationKeywords,
       causes = extractSection content causesKeywords,
       fixes = extractSection content fixesKeywords,
       references = extractReferences content,
       raw = content \<rparr>"

text \<open>The end-to-end example text of the specification, its ten lines joined by newlines.\<close>

definition exampleResponse :: string where
  "exampleResponse = join_lines
     [''1. Explanation:'',
      ''Null pointer when object is undefined.'',
      '''',
      ''2. Causes:'',
      ''- Missing initialization'',
      ''- Async timing issue'',
      '''',
      ''3. Fixes:'',
      ''- Add a null check'',
      ''See https://example.com/docs.'']"

section \<open>Errors, configuration, completions\<close>

text \<open>
  A JavaScript \<open>Error\<close> object, by the three properties the program reads. The same
  record is the \<open>error\<close> field \<open>{name, message, stack}\<close> of the objects that \<open>fixError\<close>
  returns. \<open>e_stack = None\<close> is an \<open>undefined\<close> stack.
\<close>

record js_error =
  e_name :: string
  e_message :: string
  e_stack :: "string option"

text \<open>
  \<open>new Error(msg)\<close>. The stack text is the engine's: \<open>capture msg\<close> is the text it gives
  to an error with message \<open>msg\<close> created here, a parameter of the model.
\<close>

definition newError :: "(string \<Rightarrow> string) \<Rightarrow> string \<Rightarrow> js_error" where
  "newError capture msg = \<lparr> e_name = ''Error'', e_message = msg, e_stack = Some (capture msg) \<rparr>"

text \<open>\<open>a || b\<close> on a string property: \<open>undefined\<close> and the empty text are falsy.\<close>

definition orElse :: "string option \<Rightarrow> string \<Rightarrow> string" where
  "orElse a b = (case a of None \<Rightarrow> b | Some x \<Rightarrow> if x = [] then b else x)"

text \<open>The module's configuration object; \<open>apiKey = None\<close> is \<open>null\<close>.\<close>

record config =
  apiKey :: "string option"
  model :: string
  timeout :: int
  maxRetries :: int
  initialized :: bool

definition notInitializedMessage :: string where
  "notInitializedMessage =
     ''ai-error-solution: Package not initialized. Please call initAutoErrorSolution() first with your API key.''"

definition getConfig :: "(string \<Rightarrow> string) \<Rightarrow> config \<Rightarrow> js_error + config" where
  "getConfig capture cfg =
     (if \<not> initialized cfg then Inl (newError capture notInitializedMessage) else Inr cfg)"

text \<open>The configuration object before \<open>initAutoErrorSolution\<close> has run.\<close>

definition defaultConfig :: config where
  "defaultConfig =
     \<lparr> apiKey = None, model = ''gpt-4o-mini'', timeout = 30000, maxRetries = 1,
       initialized = False \<rparr>"

text \<open>What a successful provider call returns; the usage metadata is opaque.\<close>

record 'u completion =
  content :: string
  model_used :: string
  usage :: 'u

section \<open>Error normalisation\<close>

text \<open>
  An error the engine itself throws, a \<open>TypeError\<close>, with the message of the engine.
\<close>

definition typeError :: "(string \<Rightarrow> string) \<Rightarrow> string \<Rightarrow> js_error" where
  "typeError capture msg =
     \<lparr> e_name = ''TypeError'', e_message = msg, e_stack = Some (capture msg) \<rparr>"

text \<open>
  The \<open>message\<close> property of an object that is not an \<open>Error\<close>: absent, a text, or a
  symbol. A symbol is truthy, and \<open>new Error(symbol)\<close> throws.
\<close>

datatype message_prop = NoMessage | TextMessage string | SymbolMessage

text \<open>
  The inputs of \<open>normalizeError\<close>, by the branch they take: an \<open>Error\<close> object; a string;
  another object, with its properties \<open>name\<close>, \<open>message\<close>, \<open>stack\<close> and the outcome of
  \<open>String(error)\<close>, which is a text or, for an object such as \<open>Object.create(null)\<close>, the
  \<open>TypeError\<close> thrown; any other value (\<open>undefined\<close>, \<open>null\<close>, a number, a boolean), by
  the text \<open>String(error)\<close>.
\<close>

record plain_object =
  o_name :: "string option"
  o_message :: message_prop
  o_stack :: "string option"
  o_string :: "js_error + string"

datatype error_input =
    NativeError js_error
  | StringInput string
  | ObjectInput plain_object
  | OtherInput string

definition truthy :: "string option \<Rightarrow> bool" where
  "truthy a = (case a of None \<Rightarrow> False | Some x \<Rightarrow> x \<noteq> [])"

text \<open>The last branch of \<open>normalizeError\<close>: \<open>new Error(String(error))\<close>, named \<open>Error\<close>.\<close>

definition fallbackError :: "(string \<Rightarrow> string) \<Rightarrow> js_error + string \<Rightarrow> js_error + js_error" where
  "fallbackError capture str =
     (case str of
        Inl thrown \<Rightarrow> Inl thrown
      | Inr s \<Rightarrow> Inr ((newError capture s)\<lparr> e_name := ''Error'' \<rparr>))"

text \<open>\<open>normalizeError\<close>; \<open>Inl\<close> is an exception thrown by a conversion inside it.\<close>

definition normalizeError :: "(string \<Rightarrow> string) \<Rightarrow> error_input \<Rightarrow> js_error + js_error" where
  "normalizeError capture error =
     (case error of
        NativeError e \<Rightarrow> Inr e
      | StringInput s \<Rightarrow> Inr ((newError capture s)\<lparr> e_name := ''Error'' \<rparr>)
      | ObjectInput ob \<Rightarrow>
          (case o_message ob of
             SymbolMessage \<Rightarrow>
               Inl (typeError capture ''Cannot convert a Symbol value to a string'')
           | TextMessage m \<Rightarrow>
               if m \<noteq> [] then
                 (let err = newError capture m
                  in Inr (err\<lparr> e_name := orElse (o_name ob) ''Error'',
                               e_stack := (if truthy (o_stack ob) then o_stack ob
                                           else e_stack err) \<rparr>))
               else fallbackError capture (o_string ob)
           | NoMessage \<Rightarrow> fallbackError capture (o_string ob))
      | OtherInput s \<Rightarrow> Inr ((newError capture s)\<lparr> e_name := ''Error'' \<rparr>))"

section \<open>The retry loop\<close>

text \<open>
  What the run does besides returning: each provider call with its attempt number and
  outcome, each \<open>sleep(ms)\<close> with the delay asked for, each call of the logger.
\<close>

datatype event =
    Failed nat js_error
  | Succeeded nat
  | Slept nat
  | LoggedAnalysis js_error analysis
  | LoggedFailure js_error string

text \<open>
  The \<open>for\<close> loop of \<open>fixError\<close>. The provider call is \<open>invoke\<close>, with a state \<open>s\<close> of its
  own that each call may change; what it returns on success is an object, hence truthy.
  The loop's variables are \<open>attempt\<close>, \<open>lastError\<close> and \<open>aiResponse\<close>; it yields
  \<open>aiResponse\<close> (\<open>None\<close> while undefined), \<open>lastError\<close>, the provider's state and the
  events in order. \<open>maxRetries\<close> is an integer, possibly negative. The delay
  \<open>1000 * Math.pow(2, attempt)\<close> is a natural number here; the source's double is the same
  number for every attempt below 1014.
\<close>

function retryLoop ::
  "('s \<Rightarrow> (js_error + 'c) \<times> 's) \<Rightarrow> int \<Rightarrow> nat \<Rightarrow> js_error option \<Rightarrow> 's
     \<Rightarrow> 'c option \<times> js_error option \<times> 's \<times> event list" where
  "retryLoop invoke maxR attempt lastError s =
     (if int attempt \<le> maxR then
        (case invoke s of
           (Inr aiResponse, s') \<Rightarrow> (Some aiResponse, lastError, s', [Succeeded attempt])
         | (Inl err, s') \<Rightarrow>
             (case retryLoop invoke maxR (Suc attempt) (Some err) s' of
                (r, le, s'', evs) \<Rightarrow>
                  (r, le, s'',
                   Failed attempt err #
                   (if int attempt < maxR then [Slept (1000 * 2 ^ attempt)] else []) @ evs)))
      else (None, lastError, s, []))"
  by pat_completeness auto
termination
  by (relation "measure (\<lambda>(invoke, maxR, attempt, lastError, s). nat (maxR + 1 - int attempt))")
     auto

text \<open>
  The loop and the statement after it:
  \<open>if (!aiResponse) throw lastError || new Error('Failed to get response from OpenAI')\<close>.
\<close>

definition callWithRetry ::
  "(string \<Rightarrow> string) \<Rightarrow> ('s \<Rightarrow> (js_error + 'c) \<times> 's) \<Rightarrow> int \<Rightarrow> 's
     \<Rightarrow> (js_error + 'c) \<times> 's \<times> event list" where
  "callWithRetry capture invoke maxR s =
     (case retryLoop invoke maxR 0 None s of
        (Some aiResponse, lastError, s', evs) \<Rightarrow> (Inr aiResponse, s', evs)
      | (None, lastError, s', evs) \<Rightarrow>
          (Inl (case lastError of
                  Some e \<Rightarrow> e
                | None \<Rightarrow> newError capture ''Failed to get response from OpenAI''),
           s', evs))"

definition attempts :: "event list \<Rightarrow> nat" where
  "attempts evs =
     length (filter (\<lambda>ev. case ev of Failed _ _ \<Rightarrow> True | Succeeded _ \<Rightarrow> True | _ \<Rightarrow> False) evs)"

definition sleeps :: "event list \<Rightarrow> nat list" where
  "sleeps evs = concat (map (\<lambda>ev. case ev of Slept ms \<Rightarrow> [ms] | _ \<Rightarrow> []) evs)"

text \<open>The outcome of the provider's call number \<open>n\<close> (from 0) when called again and again.\<close>

fun nthOutcome :: "('s \<Rightarrow> (js_error + 'c) \<times> 's) \<Rightarrow> 's \<Rightarrow> nat \<Rightarrow> js_error + 'c" where
  "nthOutcome invoke s 0 = fst (invoke s)"
| "nthOutcome invoke s (Suc n) = nthOutcome invoke (snd (invoke s)) n"

text \<open>The attempt number an event belongs to, when it is a provider call.\<close>

definition attemptNo :: "event \<Rightarrow> nat option" where
  "attemptNo ev = (case ev of Failed k _ \<Rightarrow> Some k | Succeeded k \<Rightarrow> Some k | _ \<Rightarrow> None)"

definition loopEvents :: "'a \<times> 'b \<times> 'c \<times> event list \<Rightarrow> event list" where
  "loopEvents r = snd (snd (snd r))"

definition runEvents :: "'a \<times> 'b \<times> event list \<Rightarrow> event list" where
  "runEvents r = snd (snd r)"

section \<open>The orchestrator\<close>

record options =
  silent :: bool

text \<open>
  The second argument of \<open>fixError\<close>: left out (\<open>undefined\<close>, which the default \<open>{}\<close>
  replaces), \<open>null\<close>, or a value with properties, of which \<open>silent\<close> is read for its
  truth value.
\<close>

datatype options_arg = OptionsUndefined | OptionsNull | OptionsObject options

text \<open>
  \<open>options.silent\<close>, as a truth value: reading a property of \<open>null\<close> throws, and the
  default \<open>{}\<close> has no \<open>silent\<close>.
\<close>

definition readSilent :: "(string \<Rightarrow> string) \<Rightarrow> options_arg \<Rightarrow> js_error + bool" where
  "readSilent capture opts =
     (case opts of
        OptionsUndefined \<Rightarrow> Inr False
      | OptionsNull \<Rightarrow>
          Inl (typeError capture
                 (''Cannot read properties of null (reading '' @ [CHR 0x27] @ ''silent''
                    @ [CHR 0x27] @ '')''))
      | OptionsObject ob \<Rightarrow> Inr (silent ob))"

text \<open>
  What the promise of \<open>fixError\<close> resolves to: \<open>null\<close>; the object
  \<open>{error, analysis, model, usage}\<close>; the object \<open>{error, analysis: null, analysisError}\<close>.
\<close>

datatype 'u fix_result =
    ReturnedNull
  | Analysed js_error analysis string 'u
  | AnalysisFailed js_error string

text \<open>
  The \<open>try\<close> block of \<open>fixError\<close>. \<open>Inl\<close> is an exception thrown in it; the events and
  the provider's state up to the throw are kept.
\<close>

definition tryBlock ::
  "(string \<Rightarrow> string)
     \<Rightarrow> (string option \<Rightarrow> string \<Rightarrow> string \<Rightarrow> string \<Rightarrow> int \<Rightarrow> 's \<Rightarrow> (js_error + 'u completion) \<times> 's)
     \<Rightarrow> config \<Rightarrow> error_input \<Rightarrow> options_arg \<Rightarrow> 's
     \<Rightarrow> (js_error + 'u fix_result) \<times> 's \<times> event list" where
  "tryBlock capture callOpenAI cfg error opts s =
     (case getConfig capture cfg of
        Inl e \<Rightarrow> (Inl e, s, [])
      | Inr config \<Rightarrow>
          (case normalizeError capture error of
             Inl e \<Rightarrow> (Inl e, s, [])
           | Inr errorObj \<Rightarrow>
               (let errorMessage = orElse (Some (e_message errorObj)) ''Unknown error'';
                    stackTrace = orElse (e_stack errorObj) ''No stack trace available''
                in case callWithRetry capture
                          (callOpenAI (apiKey config) (model config) errorMessage stackTrace
                             (timeout config))
                          (maxRetries config) s of
                     (Inl e, s', evs) \<Rightarrow> (Inl e, s', evs)
                   | (Inr aiResponse, s', evs) \<Rightarrow>
                       (let analysis = parseAIResponse (content aiResponse)
                        in case readSilent capture opts of
                             Inl e \<Rightarrow> (Inl e, s', evs)
                           | Inr sil \<Rightarrow>
                               if sil then
                                 (Inr (Analysed
                                         \<lparr> e_name = e_name errorObj, e_message = errorMessage,
                                           e_stack = Some stackTrace \<rparr>
                                         analysis (model_used aiResponse) (usage aiResponse)),
                                  s', evs)
                               else (Inr ReturnedNull, s',
                                     evs @ [LoggedAnalysis errorObj analysis])))))"

text \<open>
  \<open>fixError\<close>: the \<open>try\<close> block and its \<open>catch\<close>. \<open>Inl\<close> is a rejected promise, an
  exception reaching the caller: the \<open>catch\<close> block calls \<open>normalizeError(error)\<close> again
  and reads \<open>options.silent\<close>, and nothing catches what these throw.
\<close>

definition fixError ::
  "(string \<Rightarrow> string)
     \<Rightarrow> (string option \<Rightarrow> string \<Rightarrow> string \<Rightarrow> string \<Rightarrow> int \<Rightarrow> 's \<Rightarrow> (js_error + 'u completion) \<times> 's)
     \<Rightarrow> config \<Rightarrow> error_input \<Rightarrow> options_arg \<Rightarrow> 's
     \<Rightarrow> (js_error + 'u fix_result) \<times> 's \<times> event list" where
  "fixError capture callOpenAI cfg error opts s =
     (case tryBlock capture callOpenAI cfg error opts s of
        (Inr r, s', evs) \<Rightarrow> (Inr r, s', evs)
      | (Inl analysisError, s', evs) \<Rightarrow>
          (case normalizeError capture error of
             Inl e \<Rightarrow> (Inl e, s', evs)
           | Inr errorObj \<Rightarrow>
               (case readSilent capture opts of
                  Inl e \<Rightarrow> (Inl e, s', evs)
                | Inr sil \<Rightarrow>
                    if sil then
                      (Inr (AnalysisFailed
                              \<lparr> e_name = e_name errorObj, e_message = e_message errorObj,
                                e_stack = e_stack errorObj \<rparr>
                              (e_message analysisError)),
                       s', evs)
                    else (Inr ReturnedNull, s',
                          evs @ [LoggedFailure errorObj (e_message analysisError)]))))"

section \<open>The reference extractor, as specified\<close>

text \<open>The words of a text: its maximal runs of characters other than white space, in order.\<close>

function wordsOf :: "string \<Rightarrow> string list" where
  "wordsOf [] = []"
| "wordsOf (c # cs) =
     (if isSpace c then wordsOf cs
      else (c # takeWhile (\<lambda>x. \<not> isSpace x) cs) # wordsOf (dropWhile (\<lambda>x. \<not> isSpace x) cs))"
  by pat_completeness auto
termination
  by (relation "measure length") (auto intro: le_imp_less_Suc length_dropWhile_le)

text \<open>
  Following the words of claim C6: a substring that starts with \<open>http://\<close> or \<open>https://\<close>
  and runs to the next white space is a suffix of a word that starts with one of the two
  schemes; the maximal one starts at the leftmost such place of the word.
\<close>

definition startsScheme :: "string \<Rightarrow> bool" where
  "startsScheme w = (startsWith w ''http://'' \<or> startsWith w ''https://'')"

fun schemeIn :: "string \<Rightarrow> string option" where
  "schemeIn [] = None"
| "schemeIn (c # cs) = (if startsScheme (c # cs) then Some (c # cs) else schemeIn cs)"

definition claimedReferences :: "string \<Rightarrow> string list" where
  "claimedReferences txt = map cleanUrl (List.map_filter schemeIn (wordsOf txt))"

text \<open>
  The same with the amendment: after the scheme at least one more character of the word
  must follow.
\<close>

definition startsUrl :: "string \<Rightarrow> bool" where
  "startsUrl w = ((startsWith w ''http://'' \<and> 7 < length w)
                  \<or> (startsWith w ''https://'' \<and> 8 < length w))"

fun urlIn :: "string \<Rightarrow> string option" where
  "urlIn [] = None"
| "urlIn (c # cs) = (if startsUrl (c # cs) then Some (c # cs) else urlIn cs)"

definition specReferences :: "string \<Rightarrow> string list" where
  "specReferences txt = map cleanUrl (List.map_filter urlIn (wordsOf txt))"

text \<open>A text with five candidate places, one of them a bare scheme, one URL twice.\<close>

definition referencesSample :: string where
  "referencesSample =
     ''(see https://x.com/a). Also xhttp://a/https://b, http://c http:// https://x.com/a''"

section \<open>Stub providers\<close>

text \<open>A provider that fails on every call; its state counts the calls.\<close>

definition failingStub :: "nat \<Rightarrow> (js_error + nat) \<times> nat" where
  "failingStub n =
     (Inl \<lparr> e_name = ''Error'', e_message = (if n = 0 then ''first'' else ''later''),
            e_stack = None \<rparr>, Suc n)"

text \<open>A provider that fails twice and then succeeds.\<close>

definition flakyStub :: "nat \<Rightarrow> (js_error + string) \<times> nat" where
  "flakyStub n =
     (if n < 2 then Inl \<lparr> e_name = ''Error'', e_message = ''timed out'', e_stack = None \<rparr>
      else Inr ''completion'', Suc n)"

text \<open>A provider that succeeds at once.\<close>

definition okStub ::
  "string option \<Rightarrow> string \<Rightarrow> string \<Rightarrow> string \<Rightarrow> int \<Rightarrow> nat
     \<Rightarrow> (js_error + unit completion) \<times> nat" where
  "okStub key mdl msg stk tmo n =
     (Inr \<lparr> content = ''ok'', model_used = mdl, usage = () \<rparr>, Suc n)"

section \<open>Properties of the section extractor\<close>

lemma join_lines_nonempty:
  "xs \<noteq> [] \<Longrightarrow> \<forall>x\<in>set xs. x \<noteq> [] \<Longrightarrow> join_lines xs \<noteq> []"
  by (induction xs rule: join_lines.induct) auto

text \<open>The accumulator of the loop only grows: the lines found so far stay in front.\<close>

lemma scanLines_append:
  "scanLines kws cap (acc @ acc') ls = acc @ scanLines kws cap acc' ls"
  by (induction ls arbitrary: cap acc') auto

text \<open>Before the first header line nothing is captured.\<close>

lemma scanLines_before_header:
  "\<forall>l\<in>set pre. \<not> isKeywordLine kws l \<Longrightarrow>
     scanLines kws False acc (pre @ rest) = scanLines kws False acc rest"
  by (induction pre) auto

lemma scanLines_no_header:
  "\<forall>l\<in>set ls. \<not> isKeywordLine kws l \<Longrightarrow> scanLines kws False acc ls = acc"
  using scanLines_before_header [of ls kws acc "[]"] by simp

lemma extractSection_nonempty: "extractSection txt kws \<noteq> []"
  by (simp add: extractSection_def Let_def)

section \<open>The end-to-end example\<close>

lemma example_explanation:
  "extractSection exampleResponse explanationKeywords = ''Null pointer when object is undefined.''"
  by code_simp

lemma example_causes:
  "extractSection exampleResponse causesKeywords =
     join_lines [''- Missing initialization'', ''- Async timing issue'']"
  by code_simp

lemma example_fixes:
  "extractSection exampleResponse fixesKeywords =
     join_lines [''- Add a null check'', ''See https://example.com/docs.'']"
  by code_simp

lemma example_references:
  "extractReferences exampleResponse = [''https://example.com/docs'']"
  by code_simp

lemma example_includes:
  "includesStr (join_lines [''- Missing initialization'', ''- Async timing issue''])
     ''- Missing initialization''"
  "includesStr (join_lines [''- Missing initialization'', ''- Async timing issue''])
     ''- Async timing issue''"
  "includesStr (join_lines [''- Add a null check'', ''See https://example.com/docs.''])
     ''- Add a null check''"
  by code_simp+

text \<open>
  Claim C1. On the end-to-end example text of the specification (the numbered sections
  Explanation, Causes, Fixes and a last line with a URL), \<open>parseAIResponse\<close> returns the
  explanation ``Null pointer when object is undefined.'', a causes text that contains both
  bullet lines, a fixes text that contains the fix bullet, and the one reference
  \<open>https://example.com/docs\<close>.
\<close>

theorem parseAIResponse_example:
  "explanation (parseAIResponse exampleResponse) = ''Null pointer when object is undefined.''
   \<and> includesStr (causes (parseAIResponse exampleResponse)) ''- Missing initialization''
   \<and> includesStr (causes (parseAIResponse exampleResponse)) ''- Async timing issue''
   \<and> includesStr (fixes (parseAIResponse exampleResponse)) ''- Add a null check''
   \<and> references (parseAIResponse exampleResponse) = [''https://example.com/docs'']"
  by (simp only: parseAIResponse_def analysis.simps example_explanation example_causes
        example_fixes example_references example_includes simp_thms)

text \<open>
  Claim C4. When no line of the text satisfies the header condition for the keyword set,
  \<open>extractSection\<close> returns the first 200 characters of the text followed by \<open>...\<close>
  (for every text, the empty one included).
\<close>

theorem extractSection_fallback:
  assumes "\<forall>line\<in>set (split_lines txt). \<not> isKeywordLine keywords line"
  shows "extractSection txt keywords = take 200 txt @ ''...''"
  using scanLines_no_header [OF assms, of "[]"]
  by (simp add: extractSection_def substring0_def)

theorem extractSection_fallback_witness:
  "list_all (\<lambda>line. \<not> isKeywordLine causesKeywords line) (split_lines ''The causes are unknown'')
   \<and> extractSection ''The causes are unknown'' causesKeywords = ''The causes are unknown...''"
proof -
  have h: "list_all (\<lambda>line. \<not> isKeywordLine causesKeywords line)
             (split_lines ''The causes are unknown'')"
    by code_simp
  then have "\<forall>line\<in>set (split_lines ''The causes are unknown'').
               \<not> isKeywordLine causesKeywords line"
    by (simp only: list_all_iff)
  from extractSection_fallback [OF this] h show ?thesis
    by simp
qed

lemma scanLines_nonempty_lines:
  "\<forall>x\<in>set acc. x \<noteq> [] \<Longrightarrow> \<forall>x\<in>set (scanLines kws cap acc ls). x \<noteq> []"
proof (induction ls arbitrary: cap acc)
  case Nil
  then show ?case by simp
next
  case (Cons l ls)
  note keep = Cons.IH [OF Cons.prems]
  show ?case
  proof (cases "isKeywordLine kws l")
    case True
    then show ?thesis using keep [of True] by simp
  next
    case nk: False
    show ?thesis
    proof (cases "cap \<and> stopsCapture kws l")
      case True
      with nk Cons.prems show ?thesis
        by (auto simp: stopsCapture_def)
    next
      case ns: False
      show ?thesis
      proof (cases "cap \<and> trim l \<noteq> []")
        case True
        then have acc': "\<forall>x\<in>set (acc @ [trim l]). x \<noteq> []"
          using Cons.prems by simp
        note push = Cons.IH [OF acc', of cap]
        show ?thesis
        proof (cases "lookAheadBlank ls")
          case la: True
          have "scanLines kws cap acc (l # ls) = acc @ [trim l]"
            using nk ns True la by (auto simp: stopsCapture_def)
          with acc' show ?thesis by simp
        next
          case la: False
          have "scanLines kws cap acc (l # ls) = scanLines kws cap (acc @ [trim l]) ls"
            using nk ns True la by (auto simp: stopsCapture_def)
          with push show ?thesis by simp
        qed
      next
        case False
        have "scanLines kws cap acc (l # ls) = scanLines kws cap acc ls"
          using nk ns False by (auto simp: stopsCapture_def)
        with keep [of cap] show ?thesis by simp
      qed
    qed
  qed
qed

lemma extractSection_cases:
  "(scanLines kws False [] (split_lines txt) = [] \<longrightarrow>
      extractSection txt kws = take 200 txt @ ''...'')
   \<and> (scanLines kws False [] (split_lines txt) \<noteq> [] \<longrightarrow>
      extractSection txt kws = join_lines (scanLines kws False [] (split_lines txt)))"
proof (cases "scanLines kws False [] (split_lines txt) = []")
  case True
  then show ?thesis by (simp add: extractSection_def substring0_def)
next
  case False
  moreover have "\<forall>x\<in>set (scanLines kws False [] (split_lines txt)). x \<noteq> []"
    by (rule scanLines_nonempty_lines) simp
  ultimately have "join_lines (scanLines kws False [] (split_lines txt)) \<noteq> []"
    by (intro join_lines_nonempty)
  with False show ?thesis by (simp add: extractSection_def)
qed

text \<open>
  Claim C10. For every input text, the explanation, causes and fixes fields of the record
  that \<open>parseAIResponse\<close> returns are non-empty texts: a field whose loop captured no line
  is the first 200 characters of the text followed by \<open>...\<close>, and a field whose loop
  captured lines is these lines joined by newlines, which is not empty.
\<close>

theorem parseAIResponse_sections_nonempty:
  "explanation (parseAIResponse txt) \<noteq> []
   \<and> causes (parseAIResponse txt) \<noteq> []
   \<and> fixes (parseAIResponse txt) \<noteq> []
   \<and> (scanLines explanationKeywords False [] (split_lines txt) = [] \<longrightarrow>
        explanation (parseAIResponse txt) = take 200 txt @ ''...'')
   \<and> (scanLines causesKeywords False [] (split_lines txt) = [] \<longrightarrow>
        causes (parseAIResponse txt) = take 200 txt @ ''...'')
   \<and> (scanLines fixesKeywords False [] (split_lines txt) = [] \<longrightarrow>
        fixes (parseAIResponse txt) = take 200 txt @ ''...'')
   \<and> (scanLines explanationKeywords False [] (split_lines txt) \<noteq> [] \<longrightarrow>
        explanation (parseAIResponse txt)
          = join_lines (scanLines explanationKeywords False [] (split_lines txt)))
   \<and> (scanLines causesKeywords False [] (split_lines txt) \<noteq> [] \<longrightarrow>
        causes (parseAIResponse txt)
          = join_lines (scanLines causesKeywords False [] (split_lines txt)))
   \<and> (scanLines fixesKeywords False [] (split_lines txt) \<noteq> [] \<longrightarrow>
        fixes (parseAIResponse txt)
          = join_lines (scanLines fixesKeywords False [] (split_lines txt)))"
  using extractSection_cases [of explanationKeywords "txt"]
    extractSection_cases [of causesKeywords "txt"]
    extractSection_cases [of fixesKeywords "txt"]
  by (simp add: parseAIResponse_def extractSection_nonempty)

theorem parseAIResponse_sections_nonempty_witness:
  "explanation (parseAIResponse ''hello'') = ''hello...''
   \<and> causes (parseAIResponse ''hello'') = ''hello...''
   \<and> fixes (parseAIResponse ''hello'') = ''hello...''
   \<and> causes (parseAIResponse exampleResponse)
       = join_lines [''- Missing initialization'', ''- Async timing issue'']"
proof -
  have none: "scanLines explanationKeywords False [] (split_lines ''hello'') = []"
      "scanLines causesKeywords False [] (split_lines ''hello'') = []"
      "scanLines fixesKeywords False [] (split_lines ''hello'') = []"
    by code_simp+
  have some: "scanLines causesKeywords False [] (split_lines exampleResponse)
      = [''- Missing initialization'', ''- Async timing issue'']"
    by code_simp
  from parseAIResponse_sections_nonempty [of "''hello''"] none
  have "explanation (parseAIResponse ''hello'') = ''hello...''
      \<and> causes (parseAIResponse ''hello'') = ''hello...''
      \<and> fixes (parseAIResponse ''hello'') = ''hello...''"
    by simp
  moreover from parseAIResponse_sections_nonempty [of exampleResponse] some
  have "causes (parseAIResponse exampleResponse)
       = join_lines [''- Missing initialization'', ''- Async timing issue'']"
    by simp
  ultimately show ?thesis by simp
qed

section \<open>Properties of the retry loop\<close>

declare retryLoop.simps [simp del]

lemma retryLoop_stop:
  "\<not> int a \<le> maxR \<Longrightarrow> retryLoop invoke maxR a le s = (None, le, s, [])"
  by (subst retryLoop.simps) simp

lemma retryLoop_success:
  "int a \<le> maxR \<Longrightarrow> invoke s = (Inr v, s') \<Longrightarrow>
     retryLoop invoke maxR a le s = (Some v, le, s', [Succeeded a])"
  by (subst retryLoop.simps) simp

lemma retryLoop_failure:
  "int a \<le> maxR \<Longrightarrow> invoke s = (Inl err, s') \<Longrightarrow>
     retryLoop invoke maxR a le s =
       (case retryLoop invoke maxR (Suc a) (Some err) s' of
          (r, le', s'', evs) \<Rightarrow>
            (r, le', s'',
             Failed a err # (if int a < maxR then [Slept (1000 * 2 ^ a)] else []) @ evs))"
  by (subst retryLoop.simps) simp

lemma retryLoop_all_fail:
  assumes allfail: "\<And>t. isl (fst (invoke t))"
  shows "nat maxR - a = n \<Longrightarrow> int a \<le> maxR \<Longrightarrow>
     (case retryLoop invoke maxR a le s of
        (r, le', s', evs) \<Rightarrow>
          r = None \<and> attempts evs = Suc n
          \<and> map_option Inl le' = Some (nthOutcome invoke s n))"
proof (induction n arbitrary: a le s)
  case 0
  obtain err s' where inv: "invoke s = (Inl err, s')"
    using allfail [of s] by (cases "invoke s") (auto simp: isl_def)
  from 0 have stop: "\<not> int (Suc a) \<le> maxR" by simp
  have "retryLoop invoke maxR a le s = (None, Some err, s', [Failed a err])"
    using 0
    by (simp add: retryLoop_failure [where invoke = invoke and s = s, OF "0.prems"(2) inv] retryLoop_stop [OF stop])
  then show ?case
    by (simp add: attempts_def inv)
next
  case (Suc n)
  obtain err s' where inv: "invoke s = (Inl err, s')"
    using allfail [of s] by (cases "invoke s") (auto simp: isl_def)
  from Suc.prems have a: "nat maxR - Suc a = n" "int (Suc a) \<le> maxR" by simp_all
  have "case retryLoop invoke maxR (Suc a) (Some err) s' of
          (r, le', s'', evs) \<Rightarrow>
            r = None \<and> attempts evs = Suc n
            \<and> map_option Inl le' = Some (nthOutcome invoke s' n)"
    using a by (rule Suc.IH)
  then show ?case
    by (simp add: retryLoop_failure [where invoke = invoke and s = s, OF Suc.prems(2) inv] attempts_def inv split: prod.splits)
qed

lemma retryLoop_first_event:
  assumes "int a \<le> maxR"
  shows "loopEvents (retryLoop invoke maxR a le s) \<noteq> []
         \<and> attemptNo (hd (loopEvents (retryLoop invoke maxR a le s))) = Some a"
proof (cases "invoke s")
  case (Pair out s')
  show ?thesis
  proof (cases out)
    case (Inl err)
    with Pair have inv: "invoke s = (Inl err, s')" by simp
    show ?thesis
      by (simp add: retryLoop_failure [where invoke = invoke and s = s, OF assms inv]
            loopEvents_def attemptNo_def split: prod.splits)
  next
    case (Inr v)
    with Pair have inv: "invoke s = (Inr v, s')" by simp
    show ?thesis
      by (simp add: retryLoop_success [where invoke = invoke and s = s, OF assms inv]
            loopEvents_def attemptNo_def)
  qed
qed

lemma retryLoop_trace:
  "i < length (loopEvents (retryLoop invoke maxR a le s)) \<Longrightarrow>
   loopEvents (retryLoop invoke maxR a le s) ! i = Failed k e \<Longrightarrow> int k < maxR \<Longrightarrow>
     Suc (Suc i) < length (loopEvents (retryLoop invoke maxR a le s))
     \<and> loopEvents (retryLoop invoke maxR a le s) ! Suc i = Slept (1000 * 2 ^ k)
     \<and> attemptNo (loopEvents (retryLoop invoke maxR a le s) ! Suc (Suc i)) = Some (Suc k)"
proof (induction invoke maxR a le s arbitrary: i rule: retryLoop.induct)
  case (1 invoke maxR attempt lastError s)
  show ?case
  proof (cases "int attempt \<le> maxR")
    case False
    with "1.prems" show ?thesis by (simp add: retryLoop_stop loopEvents_def)
  next
    case le: True
    show ?thesis
    proof (cases "invoke s")
      case (Pair out s')
      show ?thesis
      proof (cases out)
        case (Inr v)
        with Pair have inv: "invoke s = (Inr v, s')" by simp
        from "1.prems" show ?thesis
          by (simp add: retryLoop_success [where invoke = invoke and s = s, OF le inv] loopEvents_def)
      next
        case (Inl err)
        with Pair have inv: "invoke s = (Inl err, s')" by simp
        let ?rec = "retryLoop invoke maxR (Suc attempt) (Some err) s'"
        have evs: "loopEvents (retryLoop invoke maxR attempt lastError s) =
            Failed attempt err # (if int attempt < maxR then [Slept (1000 * 2 ^ attempt)] else [])
              @ loopEvents ?rec"
          by (simp add: retryLoop_failure [where invoke = invoke and s = s, OF le inv]
                loopEvents_def split: prod.splits)
        note IH = "1.IH" [OF le inv [symmetric] refl]
        show ?thesis
        proof (cases "int attempt < maxR")
          case lt: True
          then have next_le: "int (Suc attempt) \<le> maxR" by simp
          note hd_rec = retryLoop_first_event [OF next_le, of invoke "Some err" s']
          show ?thesis
          proof (cases i)
            case 0
            with "1.prems" evs lt hd_rec show ?thesis
              by (cases "loopEvents ?rec") auto
          next
            case (Suc j)
            show ?thesis
            proof (cases j)
              case 0
              with Suc "1.prems" evs lt show ?thesis by simp
            next
              case (Suc j')
              with \<open>i = Suc j\<close> "1.prems" evs lt IH [of j'] show ?thesis
                by simp
            qed
          qed
        next
          case nlt: False
          with le have "\<not> int (Suc attempt) \<le> maxR" by simp
          then have "loopEvents ?rec = []" by (simp add: retryLoop_stop loopEvents_def)
          with "1.prems" evs nlt show ?thesis by (cases i) auto
        qed
      qed
    qed
  qed
qed

lemma callWithRetry_events:
  "runEvents (callWithRetry capture invoke maxR s) = loopEvents (retryLoop invoke maxR 0 None s)"
  by (simp add: callWithRetry_def runEvents_def loopEvents_def split: prod.splits option.splits)

lemma callWithRetry_all_fail:
  assumes allfail: "\<And>t. isl (fst (invoke t))" and nonneg: "0 \<le> maxR"
  shows "attempts (runEvents (callWithRetry capture invoke maxR s)) = nat maxR + 1
         \<and> fst (callWithRetry capture invoke maxR s) = nthOutcome invoke s (nat maxR)"
proof -
  have "case retryLoop invoke maxR 0 None s of
          (r, le', s', evs) \<Rightarrow>
            r = None \<and> attempts evs = Suc (nat maxR)
            \<and> map_option Inl le' = Some (nthOutcome invoke s (nat maxR))"
    using nonneg by (intro retryLoop_all_fail [OF allfail]) simp_all
  then show ?thesis
    by (auto simp: callWithRetry_def runEvents_def split: prod.splits option.splits)
qed

lemma callWithRetry_zero:
  "attempts (runEvents (callWithRetry capture invoke 0 s)) = 1
   \<and> sleeps (runEvents (callWithRetry capture invoke 0 s)) = []"
proof (cases "invoke s")
  case (Pair out s')
  have le: "int 0 \<le> 0" and stop: "\<not> int (Suc 0) \<le> 0" by simp_all
  show ?thesis
  proof (cases out)
    case (Inl err)
    with Pair have inv: "invoke s = (Inl err, s')" by simp
    show ?thesis
      by (simp add: callWithRetry_events loopEvents_def attempts_def sleeps_def
            retryLoop_failure [where invoke = invoke and s = s, OF le inv]
            retryLoop_stop [OF stop])
  next
    case (Inr v)
    with Pair have inv: "invoke s = (Inr v, s')" by simp
    show ?thesis
      by (simp add: callWithRetry_events loopEvents_def attempts_def sleeps_def
            retryLoop_success [where invoke = invoke and s = s, OF le inv])
  qed
qed

text \<open>
  Claim C2. With \<open>maxRetries = 0\<close> the provider is called exactly once and nothing is
  slept. When every call of the provider fails and \<open>maxRetries\<close> is not negative, the
  provider is called exactly \<open>maxRetries + 1\<close> times and the failure thrown after the loop
  is the cause of the last call; with \<open>maxRetries = 1\<close> these are two calls and the cause
  of the second.
\<close>

theorem retry_attempts:
  "(attempts (runEvents (callWithRetry capture invoke 0 s)) = 1
      \<and> sleeps (runEvents (callWithRetry capture invoke 0 s)) = [])
   \<and> ((\<forall>t. isl (fst (invoke t))) \<and> 0 \<le> maxR \<longrightarrow>
        attempts (runEvents (callWithRetry capture invoke maxR s)) = nat maxR + 1
        \<and> fst (callWithRetry capture invoke maxR s) = nthOutcome invoke s (nat maxR))
   \<and> ((\<forall>t. isl (fst (invoke t))) \<longrightarrow>
        attempts (runEvents (callWithRetry capture invoke 1 s)) = 2
        \<and> fst (callWithRetry capture invoke 1 s) = nthOutcome invoke s 1)"
  using callWithRetry_zero [of capture invoke s]
    callWithRetry_all_fail [of invoke maxR capture s]
    callWithRetry_all_fail [of invoke 1 capture s]
  by simp

theorem retry_attempts_witness:
  "attempts (runEvents (callWithRetry (\<lambda>m. m) failingStub 1 0)) = 2
   \<and> fst (callWithRetry (\<lambda>m. m) failingStub 1 0)
       = Inl \<lparr> e_name = ''Error'', e_message = ''later'', e_stack = None \<rparr>"
proof -
  have "\<forall>t. isl (fst (failingStub t))"
    by (simp add: failingStub_def)
  moreover have "nthOutcome failingStub 0 1
      = Inl \<lparr> e_name = ''Error'', e_message = ''later'', e_stack = None \<rparr>"
    by (simp add: failingStub_def)
  ultimately show ?thesis
    using retry_attempts [of "\<lambda>m. m" failingStub 0 1] by simp
qed

text \<open>
  Claim C7. In the events of a run, a failed attempt number \<open>k\<close> with \<open>k < maxRetries\<close> is
  followed at once by a sleep of \<open>1000 * 2 ^ k\<close> milliseconds and then by attempt
  \<open>k + 1\<close>. When the provider fails twice and then succeeds, with \<open>maxRetries = 2\<close>, the run
  returns the success value and the delays asked for are 1000 and 2000, 3000 in all.
\<close>

theorem retry_backoff:
  "(\<forall>i k e. i < length (runEvents (callWithRetry capture invoke maxR s))
       \<and> runEvents (callWithRetry capture invoke maxR s) ! i = Failed k e \<and> int k < maxR \<longrightarrow>
         Suc (Suc i) < length (runEvents (callWithRetry capture invoke maxR s))
         \<and> runEvents (callWithRetry capture invoke maxR s) ! Suc i = Slept (1000 * 2 ^ k)
         \<and> attemptNo (runEvents (callWithRetry capture invoke maxR s) ! Suc (Suc i))
             = Some (Suc k))
   \<and> (invoke s = (Inl e0, s1) \<and> invoke s1 = (Inl e1, s2) \<and> invoke s2 = (Inr v, s3) \<longrightarrow>
        callWithRetry capture invoke 2 s
          = (Inr v, s3, [Failed 0 e0, Slept 1000, Failed 1 e1, Slept 2000, Succeeded 2])
        \<and> sum_list (sleeps (runEvents (callWithRetry capture invoke 2 s))) = 3000)"
proof (intro conjI allI impI)
  fix i k e
  assume "i < length (runEvents (callWithRetry capture invoke maxR s))
       \<and> runEvents (callWithRetry capture invoke maxR s) ! i = Failed k e \<and> int k < maxR"
  then have h: "i < length (loopEvents (retryLoop invoke maxR 0 None s))"
      "loopEvents (retryLoop invoke maxR 0 None s) ! i = Failed k e" "int k < maxR"
    by (simp_all add: callWithRetry_events)
  note t = retryLoop_trace [OF h]
  from t show "Suc (Suc i) < length (runEvents (callWithRetry capture invoke maxR s))"
    by (simp add: callWithRetry_events)
  from t show "runEvents (callWithRetry capture invoke maxR s) ! Suc i = Slept (1000 * 2 ^ k)"
    by (simp add: callWithRetry_events)
  from t show "attemptNo (runEvents (callWithRetry capture invoke maxR s) ! Suc (Suc i))
      = Some (Suc k)"
    by (simp add: callWithRetry_events)
next
  assume a: "invoke s = (Inl e0, s1) \<and> invoke s1 = (Inl e1, s2) \<and> invoke s2 = (Inr v, s3)"
  have le: "int 0 \<le> 2" "int (Suc 0) \<le> 2" "int (Suc (Suc 0)) \<le> 2" by simp_all
  have r2: "retryLoop invoke 2 (Suc (Suc 0)) (Some e1) s2
      = (Some v, Some e1, s3, [Succeeded 2])"
    using retryLoop_success [where invoke = invoke and s = s2, OF le(3)] a
    by (simp add: numeral_2_eq_2)
  have r1: "retryLoop invoke 2 (Suc 0) (Some e0) s1
      = (Some v, Some e1, s3, [Failed 1 e1, Slept 2000, Succeeded 2])"
    using retryLoop_failure [where invoke = invoke and s = s1, OF le(2)] a r2
    by simp
  have r0: "retryLoop invoke 2 0 None s
      = (Some v, Some e1, s3, [Failed 0 e0, Slept 1000, Failed 1 e1, Slept 2000, Succeeded 2])"
    using retryLoop_failure [where invoke = invoke and s = s, OF le(1)] a r1
    by simp
  show run: "callWithRetry capture invoke 2 s
      = (Inr v, s3, [Failed 0 e0, Slept 1000, Failed 1 e1, Slept 2000, Succeeded 2])"
    by (simp add: callWithRetry_def r0)
  show "sum_list (sleeps (runEvents (callWithRetry capture invoke 2 s))) = 3000"
    by (simp add: run runEvents_def sleeps_def)
qed

theorem retry_backoff_witness:
  "callWithRetry (\<lambda>m. m) flakyStub 2 0
     = (Inr ''completion'', 3,
        [Failed 0 \<lparr> e_name = ''Error'', e_message = ''timed out'', e_stack = None \<rparr>,
         Slept 1000,
         Failed 1 \<lparr> e_name = ''Error'', e_message = ''timed out'', e_stack = None \<rparr>,
         Slept 2000, Succeeded 2])
   \<and> sum_list (sleeps (runEvents (callWithRetry (\<lambda>m. m) flakyStub 2 0))) = 3000
   \<and> runEvents (callWithRetry (\<lambda>m. m) flakyStub 2 0) ! Suc 0 = Slept (1000 * 2 ^ 0)"
proof -
  let ?e = "\<lparr> e_name = ''Error'', e_message = ''timed out'', e_stack = None \<rparr>"
  have st: "flakyStub 0 = (Inl ?e, 1) \<and> flakyStub 1 = (Inl ?e, 2)
      \<and> flakyStub 2 = (Inr ''completion'', 3)"
    by (simp add: flakyStub_def)
  note th = retry_backoff [of "\<lambda>m. m" flakyStub 2 0 ?e 1 ?e 2 "''completion''" 3]
  from th st have run: "callWithRetry (\<lambda>m. m) flakyStub 2 0
     = (Inr ''completion'', 3, [Failed 0 ?e, Slept 1000, Failed 1 ?e, Slept 2000, Succeeded 2])"
    and total: "sum_list (sleeps (runEvents (callWithRetry (\<lambda>m. m) flakyStub 2 0))) = 3000"
    by blast+
  from th have "0 < length (runEvents (callWithRetry (\<lambda>m. m) flakyStub 2 0))
       \<and> runEvents (callWithRetry (\<lambda>m. m) flakyStub 2 0) ! 0 = Failed 0 ?e \<and> int 0 < 2 \<longrightarrow>
      runEvents (callWithRetry (\<lambda>m. m) flakyStub 2 0) ! Suc 0 = Slept (1000 * 2 ^ 0)"
    by blast
  then have "runEvents (callWithRetry (\<lambda>m. m) flakyStub 2 0) ! Suc 0 = Slept (1000 * 2 ^ 0)"
    by (simp add: run runEvents_def)
  with run total show ?thesis by simp
qed

section \<open>Properties of the orchestrator\<close>

lemma tryBlock_not_initialized:
  "\<not> initialized cfg \<Longrightarrow>
     tryBlock capture callOpenAI cfg error opts s
       = (Inl (newError capture notInitializedMessage), s, [])"
  by (simp add: tryBlock_def getConfig_def)








text \<open>
  Claim C8 asks that the message of the error record is never empty, with the fallback
  \<open>Unknown error\<close>, on the success path and on the failure path. The program applies
  the fallback on the success path only. For \<open>new Error()\<close>, whose message is empty: when
  the package is not initialised and \<open>silent\<close> is true, the returned \<open>error.message\<close> is
  the empty text; when the provider answers, it is \<open>Unknown error\<close>.
\<close>

theorem fixError_message_fallback_missing:
  "fixError capture callOpenAI defaultConfig
      (NativeError \<lparr> e_name = ''Error'', e_message = [], e_stack = Some st \<rparr>)
      (OptionsObject \<lparr> silent = True \<rparr>) s
     = (Inr (AnalysisFailed \<lparr> e_name = ''Error'', e_message = [], e_stack = Some st \<rparr>
               notInitializedMessage), s, [])
   \<and> fixError capture okStub (defaultConfig\<lparr> apiKey := Some ''sk-test'', initialized := True \<rparr>)
      (NativeError \<lparr> e_name = ''Error'', e_message = [], e_stack = Some ''Error'' \<rparr>)
      (OptionsObject \<lparr> silent = True \<rparr>) 0
     = (Inr (Analysed
               \<lparr> e_name = ''Error'', e_message = ''Unknown error'', e_stack = Some ''Error'' \<rparr>
               (parseAIResponse ''ok'') ''gpt-4o-mini'' ()), 1, [Succeeded 0])"
proof
  show "fixError capture callOpenAI defaultConfig
      (NativeError \<lparr> e_name = ''Error'', e_message = [], e_stack = Some st \<rparr>)
      (OptionsObject \<lparr> silent = True \<rparr>) s
     = (Inr (AnalysisFailed \<lparr> e_name = ''Error'', e_message = [], e_stack = Some st \<rparr>
               notInitializedMessage), s, [])"
    by (simp add: fixError_def tryBlock_not_initialized defaultConfig_def normalizeError_def
          readSilent_def newError_def)
next
  let ?inv = "okStub (Some ''sk-test'') ''gpt-4o-mini'' ''Unknown error'' ''Error'' 30000"
  have le: "int 0 \<le> 1" by simp
  have inv: "?inv 0 = (Inr \<lparr> content = ''ok'', model_used = ''gpt-4o-mini'', usage = () \<rparr>, Suc 0)"
    by (simp add: okStub_def)
  have run: "callWithRetry capture ?inv 1 0
      = (Inr \<lparr> content = ''ok'', model_used = ''gpt-4o-mini'', usage = () \<rparr>, Suc 0,
         [Succeeded 0])"
    by (simp add: callWithRetry_def retryLoop_success [where invoke = ?inv and s = 0, OF le inv])
  show "fixError capture okStub (defaultConfig\<lparr> apiKey := Some ''sk-test'', initialized := True \<rparr>)
      (NativeError \<lparr> e_name = ''Error'', e_message = [], e_stack = Some ''Error'' \<rparr>)
      (OptionsObject \<lparr> silent = True \<rparr>) 0
     = (Inr (Analysed
               \<lparr> e_name = ''Error'', e_message = ''Unknown error'', e_stack = Some ''Error'' \<rparr>
               (parseAIResponse ''ok'') ''gpt-4o-mini'' ()), 1, [Succeeded 0])"
    by (simp add: fixError_def tryBlock_def getConfig_def defaultConfig_def normalizeError_def
          readSilent_def orElse_def run Let_def)
qed

section \<open>Capture of a section body\<close>

lemma lookAheadBlank_nonblank: "trim l \<noteq> [] \<Longrightarrow> \<not> lookAheadBlank (l # rest)"
  by (cases rest) simp_all

lemma scan_block:
  assumes "\<forall>l\<in>set body. trim l \<noteq> [] \<and> \<not> isKeywordLine kws l \<and> \<not> stopsCapture kws l"
    and "body \<noteq> []" and "trim b1 = []" and "trim b2 = []"
  shows "scanLines kws True acc (body @ b1 # b2 # post) = acc @ map trim body"
  using assms(1,2)
proof (induction body arbitrary: acc)
  case Nil
  then show ?case by simp
next
  case (Cons l body)
  show ?case
  proof (cases body)
    case Nil
    with Cons.prems assms(3,4) show ?thesis
      by (simp add: stopsCapture_def)
  next
    case (Cons l' body')
    with Cons.prems have "trim l' \<noteq> []" by simp
    with Cons have la: "\<not> lookAheadBlank (body @ b1 # b2 # post)"
      by (simp add: lookAheadBlank_nonblank)
    have "scanLines kws True (acc @ [trim l]) (body @ b1 # b2 # post)
        = (acc @ [trim l]) @ map trim body"
      using Cons.prems Cons by (intro Cons.IH) simp_all
    with Cons.prems la show ?thesis
      by (simp add: stopsCapture_def)
  qed
qed

text \<open>
  Claim C5, amended. Let the lines of the text be: lines of which none is a header line for
  the causes keywords; the line \<open>Causes:\<close>; then N lines, N at least 1, each non-blank,
  none a header line for the causes keywords, none meeting a stop condition (a section
  header pattern that mentions documentation, reference or link; a numbered header without
  a causes keyword); then two blank lines; then anything. Then \<open>extractSection\<close> with the
  causes keywords returns exactly those N lines, each trimmed, joined by newlines.
\<close>

theorem extractSection_causes_block:
  assumes "split_lines txt = pre @ ''Causes:'' # body @ b1 # b2 # post"
    and "\<forall>l\<in>set pre. \<not> isKeywordLine causesKeywords l"
    and "body \<noteq> []"
    and "\<forall>l\<in>set body. trim l \<noteq> [] \<and> \<not> isKeywordLine causesKeywords l
           \<and> \<not> stopsCapture causesKeywords l"
    and "trim b1 = []" and "trim b2 = []"
  shows "extractSection txt causesKeywords = join_lines (map trim body)"
proof -
  have hdr: "isKeywordLine causesKeywords ''Causes:''"
    by code_simp
  have "scanLines causesKeywords False [] (split_lines txt)
      = scanLines causesKeywords False [] (''Causes:'' # body @ b1 # b2 # post)"
    unfolding assms(1) using assms(2) by (rule scanLines_before_header)
  also have "\<dots> = scanLines causesKeywords True [] (body @ b1 # b2 # post)"
    using hdr by simp
  also have "\<dots> = map trim body"
    using scan_block [OF assms(4,3,5,6), of "[]" post] by simp
  finally have scan: "scanLines causesKeywords False [] (split_lines txt) = map trim body" .
  have "join_lines (map trim body) \<noteq> []"
    using assms(3,4) by (intro join_lines_nonempty) auto
  with scan show ?thesis
    by (simp add: extractSection_def)
qed

theorem extractSection_causes_block_witness:
  "extractSection
     (join_lines [''Intro'', ''Causes:'', ''  first cause  '', ''second cause'', [], [], ''after''])
     causesKeywords
   = join_lines [''first cause'', ''second cause'']"
proof -
  let ?body = "[''  first cause  '', ''second cause'']"
  have split: "split_lines
       (join_lines [''Intro'', ''Causes:'', ''  first cause  '', ''second cause'', [], [], ''after''])
     = [''Intro''] @ ''Causes:'' # ?body @ [] # [] # [''after'']"
    by code_simp
  have pre: "\<forall>l\<in>set [''Intro'']. \<not> isKeywordLine causesKeywords l"
    unfolding list_all_iff [symmetric] by code_simp
  have body: "\<forall>l\<in>set ?body. trim l \<noteq> [] \<and> \<not> isKeywordLine causesKeywords l
           \<and> \<not> stopsCapture causesKeywords l"
    unfolding list_all_iff [symmetric] by code_simp
  have blank: "trim [] = []" by (simp add: trim_def)
  have ne: "?body \<noteq> []" by simp
  have out: "join_lines (map trim ?body) = join_lines [''first cause'', ''second cause'']"
    by code_simp
  from extractSection_causes_block [OF split pre ne body blank blank] out
  show ?thesis by simp
qed

text \<open>
  The claim as first stated, for every text with a line \<open>Causes:\<close>, N non-blank lines and
  two blank lines, fails: on a bullet line that mentions a link and on a numbered line the
  capture stops and the fallback is returned; a line that is itself a header line is left
  out; an earlier header line starts the capture earlier; with N = 0 the fallback is
  returned.
\<close>

theorem extractSection_causes_block_counterexample:
  "extractSection (join_lines [''Causes:'', ''- Broken link in config'', [], []]) causesKeywords
     \<noteq> join_lines (map trim [''- Broken link in config''])
   \<and> extractSection (join_lines [''Causes:'', ''1. Missing import'', [], []]) causesKeywords
     \<noteq> join_lines (map trim [''1. Missing import''])
   \<and> extractSection (join_lines [''Causes:'', ''Root causes: none'', ''real line'', [], []])
       causesKeywords
     \<noteq> join_lines (map trim [''Root causes: none'', ''real line''])
   \<and> extractSection
       (join_lines [''Reasons: see below'', ''intro'', ''Causes:'', ''foo'', [], []])
       causesKeywords
     \<noteq> join_lines (map trim [''foo''])
   \<and> extractSection (join_lines [''Causes:'', [], []]) causesKeywords
     \<noteq> join_lines (map trim [])"
  by code_simp

lemma scan_region:
  "noStopIn kws body tail \<Longrightarrow>
     scanLines kws True acc (body @ tail) = scanLines kws True (acc @ emitted kws body) tail"
proof (induction body arbitrary: acc)
  case Nil
  show ?case by (simp add: emitted_def)
next
  case (Cons l body)
  from Cons.prems have rest: "noStopIn kws body tail" by simp
  note IH = Cons.IH [OF rest]
  show ?case
  proof (cases "isKeywordLine kws l")
    case True
    then show ?thesis using IH [of acc] by (simp add: emitted_def)
  next
    case False
    with Cons.prems have ns: "\<not> stopsCapture kws l"
      and la: "\<not> (trim l \<noteq> [] \<and> lookAheadBlank (body @ tail))" by simp_all
    show ?thesis
    proof (cases "trim l = []")
      case True
      with False ns IH [of acc] show ?thesis
        by (auto simp: emitted_def stopsCapture_def)
    next
      case nb: False
      with la have "\<not> lookAheadBlank (body @ tail)" by simp
      with False ns nb IH [of "acc @ [trim l]"] show ?thesis
        by (auto simp: emitted_def stopsCapture_def)
    qed
  qed
qed

lemma scan_ends:
  "stopOutput kws tail = Some fin \<Longrightarrow> scanLines kws True acc tail = acc @ fin"
  by (cases tail) (auto simp: stopOutput_def stopsCapture_def split: if_splits)

lemma emitted_nonempty: "\<forall>x\<in>set (emitted kws body). x \<noteq> []"
  by (auto simp: emitted_def)

lemma stopOutput_nonempty: "stopOutput kws tail = Some fin \<Longrightarrow> \<forall>x\<in>set fin. x \<noteq> []"
  by (cases tail) (auto simp: stopOutput_def split: if_splits)

text \<open>Every list of lines splits into a part without a stop and the place where capture ends.\<close>

lemma capture_splitI:
  "ls = body @ tail \<Longrightarrow> noStopIn kws body tail \<Longrightarrow> stopOutput kws tail = Some fin \<Longrightarrow>
     \<exists>body tail fin. ls = body @ tail \<and> noStopIn kws body tail \<and> stopOutput kws tail = Some fin"
  by (rule exI [of _ body], rule exI [of _ tail], rule exI [of _ fin]) simp

lemma capture_split:
  "\<exists>body tail fin. ls = body @ tail \<and> noStopIn kws body tail \<and> stopOutput kws tail = Some fin"
proof (induction ls)
  case Nil
  show ?case
    by (rule capture_splitI [of _ "[]" "[]" _ "[]"]) (simp_all add: stopOutput_def)
next
  case (Cons l ls)
  then obtain body tail fin where IH: "ls = body @ tail" "noStopIn kws body tail"
      "stopOutput kws tail = Some fin"
    by (elim exE conjE)
  show ?case
  proof (cases "isKeywordLine kws l")
    case True
    show ?thesis
      by (rule capture_splitI [of _ "l # body" tail _ fin]) (use True IH in simp_all)
  next
    case nk: False
    show ?thesis
    proof (cases "stopsCapture kws l")
      case True
      show ?thesis
        by (rule capture_splitI [of _ "[]" "l # ls" _ "[]"])
           (use nk True in \<open>simp_all add: stopOutput_def\<close>)
    next
      case ns: False
      show ?thesis
      proof (cases "trim l \<noteq> [] \<and> lookAheadBlank ls")
        case True
        show ?thesis
          by (rule capture_splitI [of _ "[]" "l # ls" _ "[trim l]"])
             (use nk ns True in \<open>simp_all add: stopOutput_def\<close>)
      next
        case False
        show ?thesis
          by (rule capture_splitI [of _ "l # body" tail _ fin]) (use nk ns False IH in auto)
      qed
    qed
  qed
qed

lemma header_split:
  assumes "\<exists>l\<in>set ls. isKeywordLine kws l"
  shows "\<exists>pre h body tail fin. ls = pre @ h # body @ tail
           \<and> (\<forall>l\<in>set pre. \<not> isKeywordLine kws l) \<and> isKeywordLine kws h
           \<and> noStopIn kws body tail \<and> stopOutput kws tail = Some fin"
proof -
  from split_list_first_prop [OF assms]
  obtain pre h rest where 1: "ls = pre @ h # rest" "isKeywordLine kws h"
      "\<forall>l\<in>set pre. \<not> isKeywordLine kws l"
    by (elim exE conjE)
  from capture_split [of rest kws]
  obtain body tail fin where 2: "rest = body @ tail" "noStopIn kws body tail"
      "stopOutput kws tail = Some fin"
    by (elim exE conjE)
  show ?thesis
    by (rule exI [of _ pre], rule exI [of _ h], rule exI [of _ body], rule exI [of _ tail],
        rule exI [of _ fin]) (use 1 2 in simp)
qed

lemma extractSection_region:
  assumes "split_lines txt = pre @ h # body @ tail"
    and "\<forall>l\<in>set pre. \<not> isKeywordLine kws l"
    and "isKeywordLine kws h"
    and "noStopIn kws body tail"
    and "stopOutput kws tail = Some fin"
  shows "extractSection txt kws =
           (if emitted kws body @ fin = [] then take 200 txt @ ''...''
            else join_lines (emitted kws body @ fin))"
proof -
  have "scanLines kws False [] (split_lines txt) = scanLines kws False [] (h # body @ tail)"
    unfolding assms(1) using assms(2) by (rule scanLines_before_header)
  also have "\<dots> = scanLines kws True [] (body @ tail)"
    using assms(3) by simp
  also have "\<dots> = emitted kws body @ fin"
    using scan_region [OF assms(4), of "[]"] scan_ends [OF assms(5)] by simp
  finally have scan: "scanLines kws False [] (split_lines txt) = emitted kws body @ fin" .
  show ?thesis
  proof (cases "emitted kws body @ fin = []")
    case True
    with scan show ?thesis by (simp add: extractSection_def substring0_def)
  next
    case False
    then have "join_lines (emitted kws body @ fin) \<noteq> []"
      using emitted_nonempty [of kws body] stopOutput_nonempty [OF assms(5)]
      by (intro join_lines_nonempty) auto
    with scan False show ?thesis by (simp add: extractSection_def)
  qed
qed

text \<open>
  Claim C9, amended. Every line that satisfies the header condition for the keyword set
  is skipped and never emitted, the first one and the later ones alike. Capture begins
  after the first of them and runs until a stop condition: the end of the text; a line
  that breaks the loop, which is not emitted; a captured line with two blank lines after
  it, which is the last one emitted. Up to there the result is made of exactly the
  non-blank lines that are not header lines, trimmed, in order (and is the fallback when
  there is none). Every text with a header line is of this form.
\<close>

theorem extractSection_header_lines_skipped:
  "(split_lines txt = pre @ h # body @ tail
      \<and> (\<forall>l\<in>set pre. \<not> isKeywordLine kws l) \<and> isKeywordLine kws h
      \<and> noStopIn kws body tail \<and> stopOutput kws tail = Some fin \<longrightarrow>
      extractSection txt kws =
        (if emitted kws body @ fin = [] then take 200 txt @ ''...''
         else join_lines (emitted kws body @ fin)))
   \<and> ((\<exists>l\<in>set (split_lines txt). isKeywordLine kws l) \<longrightarrow>
        (\<exists>pre h body tail fin. split_lines txt = pre @ h # body @ tail
           \<and> (\<forall>l\<in>set pre. \<not> isKeywordLine kws l) \<and> isKeywordLine kws h
           \<and> noStopIn kws body tail \<and> stopOutput kws tail = Some fin))"
proof (intro conjI impI)
  assume "split_lines txt = pre @ h # body @ tail
      \<and> (\<forall>l\<in>set pre. \<not> isKeywordLine kws l) \<and> isKeywordLine kws h
      \<and> noStopIn kws body tail \<and> stopOutput kws tail = Some fin"
  then show "extractSection txt kws =
        (if emitted kws body @ fin = [] then take 200 txt @ ''...''
         else join_lines (emitted kws body @ fin))"
    by (elim conjE) (rule extractSection_region; assumption)
next
  assume "\<exists>l\<in>set (split_lines txt). isKeywordLine kws l"
  then show "\<exists>pre h body tail fin. split_lines txt = pre @ h # body @ tail
           \<and> (\<forall>l\<in>set pre. \<not> isKeywordLine kws l) \<and> isKeywordLine kws h
           \<and> noStopIn kws body tail \<and> stopOutput kws tail = Some fin"
    by (rule header_split)
qed

theorem extractSection_header_lines_skipped_witness:
  "extractSection
     (join_lines [''Intro'', ''Causes:'', ''foo'', ''More causes: x'', ''bar'', [], [],
        ''after''])
     causesKeywords
   = join_lines [''foo'', ''bar'']"
proof -
  let ?txt = "join_lines [''Intro'', ''Causes:'', ''foo'', ''More causes: x'', ''bar'', [], [],
        ''after'']"
  let ?body = "[''foo'', ''More causes: x'']"
  let ?tail = "[''bar'', [], [], ''after'']"
  have split: "split_lines ?txt = [''Intro''] @ ''Causes:'' # ?body @ ?tail"
    by code_simp
  have pre: "\<forall>l\<in>set [''Intro'']. \<not> isKeywordLine causesKeywords l"
    unfolding list_all_iff [symmetric] by code_simp
  have hdr: "isKeywordLine causesKeywords ''Causes:''" by code_simp
  have ns: "noStopIn causesKeywords ?body ?tail" by code_simp
  have ends: "stopOutput causesKeywords ?tail = Some [''bar'']" by code_simp
  have out: "emitted causesKeywords ?body @ [''bar''] = [''foo'', ''bar'']" by code_simp
  have hyp: "split_lines ?txt = [''Intro''] @ ''Causes:'' # ?body @ ?tail
      \<and> (\<forall>l\<in>set [''Intro'']. \<not> isKeywordLine causesKeywords l)
      \<and> isKeywordLine causesKeywords ''Causes:''
      \<and> noStopIn causesKeywords ?body ?tail
      \<and> stopOutput causesKeywords ?tail = Some [''bar'']"
    using split pre hdr ns ends by (intro conjI)
  note th = extractSection_header_lines_skipped
      [of ?txt "[''Intro'']" "''Causes:''" ?body ?tail causesKeywords "[''bar'']"]
  have "extractSection ?txt causesKeywords =
        (if emitted causesKeywords ?body @ [''bar''] = [] then take 200 ?txt @ ''...''
         else join_lines (emitted causesKeywords ?body @ [''bar'']))"
    by (rule mp [OF conjunct1 [OF th] hyp])
  then show ?thesis
    by (simp only: out) simp
qed

text \<open>
  The claim as first stated says that later header-like lines are emitted. The line
  \<open>More causes: bar\<close> below is header-like, non-blank, meets no stop condition and comes
  after the first header; it is not in the result.
\<close>

theorem extractSection_header_lines_skipped_counterexample:
  "extractSection (join_lines [''Causes:'', ''foo'', ''More causes: bar'', ''baz''])
       causesKeywords = join_lines [''foo'', ''baz'']
   \<and> isKeywordLine causesKeywords ''More causes: bar''
   \<and> trim ''More causes: bar'' \<noteq> []
   \<and> \<not> stopsCapture causesKeywords ''More causes: bar''
   \<and> \<not> includesStr
         (extractSection (join_lines [''Causes:'', ''foo'', ''More causes: bar'', ''baz''])
            causesKeywords)
         ''More causes: bar''"
  by code_simp

section \<open>Properties of the reference extractor\<close>

lemma startsWith_word:
  "r = [] \<or> isSpace (hd r) \<Longrightarrow> \<forall>x\<in>set p. \<not> isSpace x \<Longrightarrow>
     startsWith (w @ r) p = startsWith w p"
proof (induction w arbitrary: p)
  case Nil
  then show ?case by (cases p; cases r) auto
next
  case (Cons c w)
  then show ?case by (cases p) auto
qed

lemma startsWith_split: "startsWith s p \<Longrightarrow> s = p @ drop (length p) s"
  by (induction s p rule: startsWith.induct) auto

lemma startsWith_nth: "startsWith s p \<Longrightarrow> i < length p \<Longrightarrow> s ! i = p ! i"
  by (induction s p arbitrary: i rule: startsWith.induct) (auto simp: nth_Cons')

lemma scheme_exclusive: "startsWith w ''https://'' \<Longrightarrow> \<not> startsWith w ''http://''"
  using startsWith_nth [of w "''https://''" 4] startsWith_nth [of w "''http://''" 4]
  by auto

lemma schemeAt_word:
  assumes "r = [] \<or> isSpace (hd r)"
  shows "schemeAt (w @ r) = schemeAt w"
proof -
  have "\<forall>x\<in>set ''https://''. \<not> isSpace x" "\<forall>x\<in>set ''http://''. \<not> isSpace x"
    by (simp_all add: isSpace_def)
  then show ?thesis
    using assms by (simp add: schemeAt_def startsWith_word)
qed

lemma word_runs:
  assumes "\<forall>x\<in>set t. \<not> isSpace x" and "r = [] \<or> isSpace (hd r)"
  shows "takeWhile (\<lambda>x. \<not> isSpace x) (t @ r) = t"
    and "dropWhile (\<lambda>x. \<not> isSpace x) (t @ r) = r"
proof -
  from assms(2) have "takeWhile (\<lambda>x. \<not> isSpace x) r = []"
    and "dropWhile (\<lambda>x. \<not> isSpace x) r = r"
    by (cases r; auto)+
  with assms(1) show "takeWhile (\<lambda>x. \<not> isSpace x) (t @ r) = t"
    and "dropWhile (\<lambda>x. \<not> isSpace x) (t @ r) = r"
    by (simp_all add: takeWhile_append2 dropWhile_append2)
qed

lemma urlAt_word:
  assumes w: "\<forall>x\<in>set w. \<not> isSpace x" and r: "r = [] \<or> isSpace (hd r)"
  shows "urlAt (w @ r) = (if startsUrl w then Some (w, r) else None)"
proof (cases "schemeAt w")
  case None
  then have "\<not> startsUrl w"
    by (auto simp: schemeAt_def startsUrl_def split: if_splits)
  with None show ?thesis
    by (simp add: urlAt_def schemeAt_word [OF r])
next
  case (Some sch)
  then have sw: "startsWith w sch" and sch: "sch = ''https://'' \<or> sch = ''http://''"
    by (auto simp: schemeAt_def split: if_splits)
  define t where "t = drop (length sch) w"
  from sw have wt: "w = sch @ t"
    unfolding t_def by (rule startsWith_split)
  with w have t: "\<forall>x\<in>set t. \<not> isSpace x" by (metis Un_iff set_append)
  have dr: "drop (length sch) (w @ r) = t @ r"
    by (subst wt) simp
  have su: "startsUrl w = (t \<noteq> [])"
  proof (cases "sch = ''https://''")
    case True
    with sw have "\<not> startsWith w ''http://''" by (simp add: scheme_exclusive)
    moreover have "(8 < length w) = (t \<noteq> [])"
      by (subst wt) (simp add: True)
    ultimately show ?thesis using sw True by (simp add: startsUrl_def)
  next
    case False
    with sch have h: "sch = ''http://''" by simp
    from Some h have "\<not> startsWith w ''https://''"
      by (auto simp: schemeAt_def split: if_splits)
    moreover have "(7 < length w) = (t \<noteq> [])"
      by (subst wt) (simp add: h)
    ultimately show ?thesis using sw h by (simp add: startsUrl_def)
  qed
  have "urlAt (w @ r) = (if t = [] then None else Some (sch @ t, r))"
    by (simp only: urlAt_def schemeAt_word [OF r] Some option.case Let_def dr
          word_runs [OF t r])
  then show ?thesis
    by (simp add: su wt [symmetric])
qed

declare matchUrls.simps(2) [simp del]

lemma matchUrls_word:
  assumes r: "r = [] \<or> isSpace (hd r)"
  shows "\<forall>x\<in>set w. \<not> isSpace x \<Longrightarrow>
     matchUrls (w @ r) = (case urlIn w of None \<Rightarrow> [] | Some u \<Rightarrow> [u]) @ matchUrls r"
proof (induction w)
  case Nil
  show ?case by simp
next
  case (Cons c w)
  then have IH: "matchUrls (w @ r) = (case urlIn w of None \<Rightarrow> [] | Some u \<Rightarrow> [u]) @ matchUrls r"
    by simp
  have at: "urlAt ((c # w) @ r) = (if startsUrl (c # w) then Some (c # w, r) else None)"
    using Cons.prems r by (rule urlAt_word)
  show ?case
    using at IH by (simp add: matchUrls.simps(2))
qed

lemma matchUrls_space: "isSpace c \<Longrightarrow> matchUrls (c # cs) = matchUrls cs"
proof -
  assume c: "isSpace c"
  have "schemeAt (c # cs) = None"
    using c by (auto simp: schemeAt_def isSpace_def)
  then show ?thesis by (simp add: urlAt_def matchUrls.simps(2))
qed

lemma matchUrls_words: "matchUrls s = List.map_filter urlIn (wordsOf s)"
proof (induction s rule: wordsOf.induct)
  case 1
  show ?case by (simp add: List.map_filter_simps)
next
  case (2 c cs)
  show ?case
  proof (cases "isSpace c")
    case True
    with 2 show ?thesis by (simp add: matchUrls_space)
  next
    case False
    let ?w = "c # takeWhile (\<lambda>x. \<not> isSpace x) cs"
    let ?r = "dropWhile (\<lambda>x. \<not> isSpace x) cs"
    have w: "\<forall>x\<in>set ?w. \<not> isSpace x"
      using False by (auto dest: set_takeWhileD)
    have r: "?r = [] \<or> isSpace (hd ?r)"
      using hd_dropWhile [of "\<lambda>x. \<not> isSpace x" cs] by auto
    have "c # cs = ?w @ ?r" by simp
    then have "matchUrls (c # cs) = matchUrls (?w @ ?r)" by simp
    also have "\<dots> = (case urlIn ?w of None \<Rightarrow> [] | Some u \<Rightarrow> [u]) @ matchUrls ?r"
      using r w by (rule matchUrls_word)
    also have "matchUrls ?r = List.map_filter urlIn (wordsOf ?r)"
      using False by (rule "2.IH"(2))
    finally show ?thesis
      using False by (simp add: List.map_filter_simps split: option.splits)
  qed
qed

lemma cleanUrl_split: "\<exists>t. u = cleanUrl u @ t \<and> list_all isTrailing t"
proof -
  have "rev u = takeWhile isTrailing (rev u) @ dropWhile isTrailing (rev u)" by simp
  then have "u = rev (dropWhile isTrailing (rev u)) @ rev (takeWhile isTrailing (rev u))"
    by (metis rev_append rev_rev_ident)
  moreover have "list_all isTrailing (rev (takeWhile isTrailing (rev u)))"
    by (auto simp: list_all_iff dest: set_takeWhileD)
  ultimately show ?thesis unfolding cleanUrl_def by blast
qed

lemma cleanUrl_last: "cleanUrl u = [] \<or> \<not> isTrailing (last (cleanUrl u))"
proof (cases "dropWhile isTrailing (rev u)")
  case Nil
  then show ?thesis by (simp add: cleanUrl_def)
next
  case (Cons x xs)
  then have "\<not> isTrailing x"
    using hd_dropWhile [of isTrailing "rev u"] by auto
  with Cons show ?thesis by (simp add: cleanUrl_def)
qed

lemma references_example:
  "extractReferences (''see https://a.io/x.).'' @ [NL]) = [''https://a.io/x'']"
  by code_simp

text \<open>
  Claim C6, amended. \<open>extractReferences\<close> returns, in the order of the text and with
  duplicates kept, every maximal substring that starts with \<open>http://\<close> or \<open>https://\<close>
  followed by at least one character other than white space, and runs to the next white
  space, with its whole trailing run of the characters \<open>) ] > , .\<close> stripped: what is
  stripped consists of these characters only, and what is left does not end in one. On the
  text \<open>see https://a.io/x.).\<close> followed by a newline it returns exactly
  \<open>https://a.io/x\<close>.
\<close>

theorem extractReferences_spec:
  "extractReferences txt = specReferences txt
   \<and> (\<exists>t. u = cleanUrl u @ t \<and> list_all isTrailing t)
   \<and> (cleanUrl u = [] \<or> \<not> isTrailing (last (cleanUrl u)))
   \<and> extractReferences (''see https://a.io/x.).'' @ [NL]) = [''https://a.io/x'']"
  using cleanUrl_split [of u] cleanUrl_last [of u] references_example
  by (simp add: extractReferences_def specReferences_def matchUrls_words)

theorem extractReferences_spec_witness:
  "extractReferences referencesSample
     = [''https://x.com/a'', ''http://a/https://b'', ''http://c'', ''https://x.com/a'']"
proof -
  have "specReferences referencesSample
     = [''https://x.com/a'', ''http://a/https://b'', ''http://c'', ''https://x.com/a'']"
    by code_simp
  with extractReferences_spec [of referencesSample "[]"] show ?thesis
    by simp
qed

text \<open>
  The claim as first stated counts every substring that starts with a scheme and runs to
  the next white space. In \<open>see http:// now\<close> the bare \<open>http://\<close> is one, and the
  program does not return it: the pattern asks for a character after the scheme.
\<close>

theorem extractReferences_spec_counterexample:
  "extractReferences ''see http:// now'' = []
   \<and> claimedReferences ''see http:// now'' = [''http://'']"
  by code_simp

end
